theory Spec2Isabelle
  imports Main "HOL-Library.AList"
begin

section \<open>Strings, values and the output sink\<close>

text \<open>
  The generator of \<^verbatim>\<open>ninja-build-gen.ts\<close> is embedded function by function.
  A JavaScript string is a sequence of code units; the three characters the program
  looks at (space, colon, dollar) and every literal it writes are ASCII, so a
  \<^typ>\<open>string\<close> (one \<^typ>\<open>char\<close> per unit) carries the same information.
\<close>

abbreviation NL :: string where
  "NL \<equiv> [CHR 0x0A]"

text \<open>
  Names and values of bindings have the type \<^verbatim>\<open>string | number\<close>. The text of a
  number is produced by the language runtime (\<^verbatim>\<open>Number::toString\<close>), which is not
  code of this program: it is the parameter \<open>ns\<close> of every function that puts a
  value into a template literal or uses it as a property key.
\<close>

datatype 'n prim = Str string | Num 'n

fun toStr :: "('n \<Rightarrow> string) \<Rightarrow> 'n prim \<Rightarrow> string" where
  "toStr ns (Str s) = s"
| "toStr ns (Num n) = ns n"

text \<open>
  For concrete runs: the runtime prints a non-negative integer below \<open>10^21\<close> as its
  decimal digits.
\<close>

fun decimal :: "nat \<Rightarrow> string" where
  "decimal n =
     (if n < 10 then [char_of (48 + n)]
      else decimal (n div 10) @ [char_of (48 + n mod 10)])"

declare decimal.simps [simp del]

text \<open>An argument of type \<^verbatim>\<open>string | Array<string>\<close>.\<close>

datatype str_or_list = One string | Many "string list"

fun items :: "str_or_list \<Rightarrow> string list" where
  "items (One s) = [s]"
| "items (Many ss) = ss"

text \<open>\<^verbatim>\<open>Array.prototype.join\<close> on an array of strings.\<close>

fun join :: "string \<Rightarrow> string list \<Rightarrow> string" where
  "join sep [] = []"
| "join sep [x] = x"
| "join sep (x # y # ys) = x @ sep @ join sep (y # ys)"

text \<open>
  The sink only has to accept sequential string writes: it is modelled by the list of
  the chunks written so far, oldest first. The test suite's buffer appends every chunk to
  one string, which is \<open>buffer_text\<close>.
\<close>

type_synonym stream = "string list"

definition stream_write :: "stream \<Rightarrow> string \<Rightarrow> stream" where
  "stream_write stream s = stream @ [s]"

definition buffer_text :: "stream \<Rightarrow> string" where
  "buffer_text stream = concat stream"

section \<open>escape\<close>

text \<open>
  \<^verbatim>\<open>s.replace(/[ :$]/g, (match) => '$' + match)\<close>: a global replacement scans the
  string from the left; every code unit in the class is one match, handed to the
  callback, whose result takes its place; the rest is copied.
\<close>

fun replace_class_g :: "(char \<Rightarrow> bool) \<Rightarrow> (string \<Rightarrow> string) \<Rightarrow> string \<Rightarrow> string" where
  "replace_class_g cls fn [] = []"
| "replace_class_g cls fn (c # cs) =
     (if cls c then fn [c] @ replace_class_g cls fn cs
      else c # replace_class_g cls fn cs)"

definition escape :: "string \<Rightarrow> string" where
  "escape s = replace_class_g (\<lambda>c. c \<in> set '' :$'') (\<lambda>match. ''$'' @ match) s"

section \<open>Plain objects used as dictionaries\<close>

text \<open>
  An edge keeps its local bindings in a plain object, \<^verbatim>\<open>assigns = {}\<close>, written by
  \<^verbatim>\<open>this.assigns[name] = value\<close> and read by \<^verbatim>\<open>Object.entries\<close>. The object is
  modelled by its own properties in creation order. Two rules of the language are part of
  what the program does with it:
  \<^item> an assignment to an own key replaces the value in place, an assignment to a new key
    creates the property last; the key \<^verbatim>\<open>__proto__\<close> is the inherited accessor of
    \<^verbatim>\<open>Object.prototype\<close>, whose setter ignores a string or a number, so no own
    property is created for it;
  \<^item> \<^verbatim>\<open>Object.entries\<close> lists the keys that are array indices (canonical decimal
    numerals below \<open>2^32 - 1\<close>) first, in ascending numeric order, and the other
    keys after them in creation order.
\<close>

type_synonym 'v js_object = "(string \<times> 'v) list"

definition obj_set :: "string \<Rightarrow> 'v \<Rightarrow> 'v js_object \<Rightarrow> 'v js_object" where
  "obj_set k v obj = (if k = ''__proto__'' then obj else AList.update k v obj)"

definition is_digit :: "char \<Rightarrow> bool" where
  "is_digit c = (c \<in> set ''0123456789'')"

definition digits_value :: "string \<Rightarrow> int" where
  "digits_value s = foldl (\<lambda>a c. 10 * a + (of_char c - 48)) 0 s"

definition is_array_index :: "string \<Rightarrow> bool" where
  "is_array_index s =
     (s \<noteq> [] \<and> list_all is_digit s \<and> (s = ''0'' \<or> hd s \<noteq> CHR ''0'')
      \<and> digits_value s < 4294967295)"

definition Object_entries :: "'v js_object \<Rightarrow> (string \<times> 'v) list" where
  "Object_entries obj =
     sort_key (\<lambda>p. digits_value (fst p)) (filter (\<lambda>p. is_array_index (fst p)) obj)
     @ filter (\<lambda>p. \<not> is_array_index (fst p)) obj"

section \<open>NinjaAssignBuilder\<close>

record 'n NinjaAssignBuilder =
  a_name :: "'n prim"
  a_value :: "'n prim"

definition new_Assign :: "'n prim \<Rightarrow> 'n prim \<Rightarrow> 'n NinjaAssignBuilder" where
  "new_Assign name val = \<lparr>a_name = name, a_value = val\<rparr>"

text \<open>
  A \<^verbatim>\<open>write\<close> method gets the receiver and the sink and returns both, so that what a
  serialization pass does to the builders is part of the model.
\<close>

definition Assign_write ::
  "('n \<Rightarrow> string) \<Rightarrow> 'n NinjaAssignBuilder \<Rightarrow> stream \<Rightarrow> 'n NinjaAssignBuilder \<times> stream" where
  "Assign_write ns this stream =
     (this, stream_write stream (toStr ns (a_name this) @ '' = '' @ toStr ns (a_value this) @ NL))"

section \<open>NinjaEdgeBuilder\<close>

record 'n NinjaEdgeBuilder =
  targets :: "string list"
  assigns :: "'n prim js_object"
  e_rule :: string
  sources :: "string list option"
  dependencies :: "string list option"
  orderDeps :: "string list option"
  e_pool :: "string option"

text \<open>
  The constructor stores the caller's array itself. No method of the interface changes
  it afterwards, and the model takes the targets as fixed from then on.
\<close>

definition new_Edge :: "str_or_list \<Rightarrow> 'n NinjaEdgeBuilder" where
  "new_Edge tgts =
     \<lparr>targets = (case tgts of One s \<Rightarrow> [s] | Many ss \<Rightarrow> ss),
      assigns = [], e_rule = ''phony'',
      sources = None, dependencies = None, orderDeps = None, e_pool = None\<rparr>"

definition Edge_using :: "string \<Rightarrow> 'n NinjaEdgeBuilder \<Rightarrow> 'n NinjaEdgeBuilder" where
  "Edge_using r this = this\<lparr>e_rule := r\<rparr>"

text \<open>
  A method call either returns or throws, and a throw keeps what the call had already
  done to the receiver.
\<close>

datatype error = RangeError

datatype 'a completion = Returns 'a | Throws error 'a

fun state_after :: "'a completion \<Rightarrow> 'a" where
  "state_after (Returns s) = s"
| "state_after (Throws e s) = s"

text \<open>
  \<^verbatim>\<open>acc ??= []\<close> followed by \<^verbatim>\<open>push\<close>. A single string is pushed as one argument.
  A list is pushed by \<^verbatim>\<open>push(...list)\<close>, which hands every element to one call as an
  argument of its own: the runtime takes a bounded number of arguments, \<open>lim\<close> (a matter
  of the engine and its stack, so a parameter here), and throws a \<^verbatim>\<open>RangeError\<close> for a
  longer list. By then \<^verbatim>\<open>??=\<close> has run, so an accumulator that did not exist is left
  present and empty.
\<close>

definition push_onto ::
  "nat \<Rightarrow> string list option \<Rightarrow> str_or_list \<Rightarrow> string list option completion" where
  "push_onto lim acc arg =
     (let cur = (case acc of None \<Rightarrow> [] | Some xs \<Rightarrow> xs)
      in case arg of
           One s \<Rightarrow> Returns (Some (cur @ [s]))
         | Many ss \<Rightarrow>
             if length ss \<le> lim then Returns (Some (cur @ ss))
             else Throws RangeError (Some cur))"

definition Edge_from ::
  "nat \<Rightarrow> str_or_list \<Rightarrow> 'n NinjaEdgeBuilder \<Rightarrow> 'n NinjaEdgeBuilder completion" where
  "Edge_from lim srcs this =
     (case push_onto lim (sources this) srcs of
        Returns acc \<Rightarrow> Returns (this\<lparr>sources := acc\<rparr>)
      | Throws e acc \<Rightarrow> Throws e (this\<lparr>sources := acc\<rparr>))"

definition Edge_need ::
  "nat \<Rightarrow> str_or_list \<Rightarrow> 'n NinjaEdgeBuilder \<Rightarrow> 'n NinjaEdgeBuilder completion" where
  "Edge_need lim deps this =
     (case push_onto lim (dependencies this) deps of
        Returns acc \<Rightarrow> Returns (this\<lparr>dependencies := acc\<rparr>)
      | Throws e acc \<Rightarrow> Throws e (this\<lparr>dependencies := acc\<rparr>))"

definition Edge_after ::
  "nat \<Rightarrow> str_or_list \<Rightarrow> 'n NinjaEdgeBuilder \<Rightarrow> 'n NinjaEdgeBuilder completion" where
  "Edge_after lim ods this =
     (case push_onto lim (orderDeps this) ods of
        Returns acc \<Rightarrow> Returns (this\<lparr>orderDeps := acc\<rparr>)
      | Throws e acc \<Rightarrow> Throws e (this\<lparr>orderDeps := acc\<rparr>))"

definition Edge_assign ::
  "('n \<Rightarrow> string) \<Rightarrow> 'n prim \<Rightarrow> 'n prim \<Rightarrow> 'n NinjaEdgeBuilder \<Rightarrow> 'n NinjaEdgeBuilder" where
  "Edge_assign ns name val this = this\<lparr>assigns := obj_set (toStr ns name) val (assigns this)\<rparr>"

definition Edge_pool :: "string \<Rightarrow> 'n NinjaEdgeBuilder \<Rightarrow> 'n NinjaEdgeBuilder" where
  "Edge_pool p this = this\<lparr>e_pool := Some p\<rparr>"

definition Edge_write ::
  "('n \<Rightarrow> string) \<Rightarrow> 'n NinjaEdgeBuilder \<Rightarrow> stream \<Rightarrow> 'n NinjaEdgeBuilder \<times> stream" where
  "Edge_write ns this stream =
     (let s1 = stream_write stream (''build '' @ join '' '' (targets this) @ '': '' @ e_rule this);
          s2 = (case sources this of None \<Rightarrow> s1
                | Some xs \<Rightarrow> stream_write s1 ('' '' @ join '' '' xs));
          s3 = (case dependencies this of None \<Rightarrow> s2
                | Some xs \<Rightarrow> stream_write s2 ('' | '' @ join '' '' xs));
          s4 = (case orderDeps this of None \<Rightarrow> s3
                | Some xs \<Rightarrow> stream_write s3 ('' || '' @ join '' '' xs));
          s5 = fold (\<lambda>entry s. stream_write s (NL @ ''  '' @ fst entry @ '' = '' @ toStr ns (snd entry)))
                 (Object_entries (assigns this)) s4;
          s6 = stream_write s5 NL;
          s7 = (case e_pool this of None \<Rightarrow> s6
                | Some p \<Rightarrow> stream_write s6 (''  pool = '' @ p @ NL))
      in (this, s7))"

section \<open>NinjaRuleBuilder\<close>

record NinjaRuleBuilder =
  r_name :: string
  command :: string
  desc :: "string option"
  dependencyFile :: "string option"
  doRestat :: "bool option"
  isGenerator :: "bool option"
  r_pool :: "string option"

definition new_Rule :: "string \<Rightarrow> NinjaRuleBuilder" where
  "new_Rule name =
     \<lparr>r_name = name, command = [], desc = None, dependencyFile = None,
      doRestat = None, isGenerator = None, r_pool = None\<rparr>"

definition Rule_run :: "string \<Rightarrow> NinjaRuleBuilder \<Rightarrow> NinjaRuleBuilder" where
  "Rule_run c this = this\<lparr>command := c\<rparr>"

definition Rule_description :: "string \<Rightarrow> NinjaRuleBuilder \<Rightarrow> NinjaRuleBuilder" where
  "Rule_description d this = this\<lparr>desc := Some d\<rparr>"

definition Rule_depfile :: "string \<Rightarrow> NinjaRuleBuilder \<Rightarrow> NinjaRuleBuilder" where
  "Rule_depfile f this = this\<lparr>dependencyFile := Some f\<rparr>"

definition Rule_restat :: "bool \<Rightarrow> NinjaRuleBuilder \<Rightarrow> NinjaRuleBuilder" where
  "Rule_restat b this = this\<lparr>doRestat := Some b\<rparr>"

definition Rule_generator :: "bool \<Rightarrow> NinjaRuleBuilder \<Rightarrow> NinjaRuleBuilder" where
  "Rule_generator b this = this\<lparr>isGenerator := Some b\<rparr>"

definition Rule_pool :: "string \<Rightarrow> NinjaRuleBuilder \<Rightarrow> NinjaRuleBuilder" where
  "Rule_pool p this = this\<lparr>r_pool := Some p\<rparr>"

text \<open>\<^verbatim>\<open>if (this.doRestat)\<close> tests truthiness: unset and false both skip the line.\<close>

definition truthy :: "bool option \<Rightarrow> bool" where
  "truthy b = (case b of None \<Rightarrow> False | Some v \<Rightarrow> v)"

definition Rule_write :: "NinjaRuleBuilder \<Rightarrow> stream \<Rightarrow> NinjaRuleBuilder \<times> stream" where
  "Rule_write this stream =
     (let s1 = stream_write stream
                 (''rule '' @ r_name this @ NL @ ''  command = '' @ command this @ NL);
          s2 = (case desc this of None \<Rightarrow> s1
                | Some d \<Rightarrow> stream_write s1 (''  description = '' @ d @ NL));
          s3 = (if truthy (doRestat this) then stream_write s2 (''  restat = 1'' @ NL) else s2);
          s4 = (if truthy (isGenerator this) then stream_write s3 (''  generator = 1'' @ NL) else s3);
          s5 = (case r_pool this of None \<Rightarrow> s4
                | Some p \<Rightarrow> stream_write s4 (''  pool = '' @ p @ NL));
          s6 = (case dependencyFile this of None \<Rightarrow> s5
                | Some f \<Rightarrow> stream_write (stream_write s5 (''  depfile = '' @ f @ NL))
                             (''  deps = gcc'' @ NL))
      in (this, s6))"

section \<open>NinjaBuilder\<close>

record 'n NinjaBuilder =
  version :: "string option"
  buildDir :: "string option"
  edges :: "'n NinjaEdgeBuilder list"
  rules :: "NinjaRuleBuilder list"
  variables :: "'n NinjaAssignBuilder list"
  edgeCount :: nat
  ruleCount :: nat
  headerValue :: "string option"
  defaultRule :: "string option"

definition new_Ninja :: "string option \<Rightarrow> string option \<Rightarrow> 'n NinjaBuilder" where
  "new_Ninja ver dir =
     \<lparr>version = ver, buildDir = dir, edges = [], rules = [], variables = [],
      edgeCount = 0, ruleCount = 0, headerValue = None, defaultRule = None\<rparr>"

definition Ninja_header :: "string \<Rightarrow> 'n NinjaBuilder \<Rightarrow> 'n NinjaBuilder" where
  "Ninja_header v this = this\<lparr>headerValue := Some v\<rparr>"

definition Ninja_byDefault :: "string \<Rightarrow> 'n NinjaBuilder \<Rightarrow> 'n NinjaBuilder" where
  "Ninja_byDefault name this = this\<lparr>defaultRule := Some name\<rparr>"

text \<open>
  The three factory methods push the new clause and return it. The returned object is the
  one stored in the array, so the caller's later fluent calls act on the stored clause: the
  model returns the position of the clause as its handle.
\<close>

definition Ninja_assign :: "'n prim \<Rightarrow> 'n prim \<Rightarrow> 'n NinjaBuilder \<Rightarrow> nat \<times> 'n NinjaBuilder" where
  "Ninja_assign name val this =
     (length (variables this), this\<lparr>variables := variables this @ [new_Assign name val]\<rparr>)"

definition Ninja_rule :: "string \<Rightarrow> 'n NinjaBuilder \<Rightarrow> nat \<times> 'n NinjaBuilder" where
  "Ninja_rule name this =
     (length (rules this),
      this\<lparr>rules := rules this @ [new_Rule name], ruleCount := ruleCount this + 1\<rparr>)"

definition Ninja_edge :: "str_or_list \<Rightarrow> 'n NinjaBuilder \<Rightarrow> nat \<times> 'n NinjaBuilder" where
  "Ninja_edge tgts this =
     (length (edges this),
      this\<lparr>edges := edges this @ [new_Edge tgts], edgeCount := edgeCount this + 1\<rparr>)"

text \<open>\<^verbatim>\<open>for (const x of xs) x.write(stream)\<close>.\<close>

fun write_each :: "('a \<Rightarrow> stream \<Rightarrow> 'a \<times> stream) \<Rightarrow> 'a list \<Rightarrow> stream \<Rightarrow> 'a list \<times> stream" where
  "write_each w [] stream = ([], stream)"
| "write_each w (x # xs) stream =
     (case w x stream of (x', s1) \<Rightarrow>
        (case write_each w xs s1 of (xs', s2) \<Rightarrow> (x' # xs', s2)))"

definition saveToStream ::
  "('n \<Rightarrow> string) \<Rightarrow> 'n NinjaBuilder \<Rightarrow> stream \<Rightarrow> 'n NinjaBuilder \<times> stream" where
  "saveToStream ns this stream =
     (let s1 = (case headerValue this of None \<Rightarrow> stream
                | Some h \<Rightarrow> stream_write stream (h @ NL @ NL));
          s2 = (case version this of None \<Rightarrow> s1
                | Some v \<Rightarrow> stream_write s1 (''ninja_required_version = '' @ v @ NL));
          s3 = (case buildDir this of None \<Rightarrow> s2
                | Some d \<Rightarrow> stream_write s2 (''builddir='' @ d @ NL));
          rs = write_each Rule_write (rules this) s3;
          es = write_each (Edge_write ns) (edges this) (snd rs);
          vs = write_each (Assign_write ns) (variables this) (snd es);
          s7 = (case defaultRule this of None \<Rightarrow> snd vs
                | Some d \<Rightarrow> stream_write (snd vs) (''default '' @ d @ NL))
      in (this\<lparr>rules := fst rs, edges := fst es, variables := fst vs\<rparr>, s7))"

section \<open>Programs that use the interface\<close>

text \<open>
  A caller is a sequence of method calls. The fluent calls on a rule or an edge go through
  the handle its factory method returned; a handle exists only for a registered clause,
  and a call with any other number stands for no call of the source. A call that throws
  leaves the builders as \<open>state_after\<close> says; the sequence goes on from there when the
  caller catches the exception, and a caller that does not catch it is the sequence cut
  after that call.
\<close>

datatype rule_call =
  Run string | Description string | Depfile string | Restat bool | Generator bool
  | RulePool string

fun rule_do :: "rule_call \<Rightarrow> NinjaRuleBuilder \<Rightarrow> NinjaRuleBuilder" where
  "rule_do (Run c) = Rule_run c"
| "rule_do (Description d) = Rule_description d"
| "rule_do (Depfile f) = Rule_depfile f"
| "rule_do (Restat b) = Rule_restat b"
| "rule_do (Generator b) = Rule_generator b"
| "rule_do (RulePool p) = Rule_pool p"

datatype 'n edge_call =
  Using string | From str_or_list | Need str_or_list | After str_or_list
  | EdgeAssign "'n prim" "'n prim" | EdgePool string

fun edge_do ::
  "('n \<Rightarrow> string) \<Rightarrow> nat \<Rightarrow> 'n edge_call \<Rightarrow> 'n NinjaEdgeBuilder \<Rightarrow> 'n NinjaEdgeBuilder" where
  "edge_do ns lim (Using r) this = Edge_using r this"
| "edge_do ns lim (From x) this = state_after (Edge_from lim x this)"
| "edge_do ns lim (Need x) this = state_after (Edge_need lim x this)"
| "edge_do ns lim (After x) this = state_after (Edge_after lim x this)"
| "edge_do ns lim (EdgeAssign k v) this = Edge_assign ns k v this"
| "edge_do ns lim (EdgePool p) this = Edge_pool p this"

datatype 'n ninja_call =
  Header string | ByDefault string | Assign "'n prim" "'n prim" | Rule string
  | Edge str_or_list | OnRule nat rule_call | OnEdge nat "'n edge_call"

fun ninja_do ::
  "('n \<Rightarrow> string) \<Rightarrow> nat \<Rightarrow> 'n ninja_call \<Rightarrow> 'n NinjaBuilder \<Rightarrow> 'n NinjaBuilder" where
  "ninja_do ns lim (Header v) this = Ninja_header v this"
| "ninja_do ns lim (ByDefault d) this = Ninja_byDefault d this"
| "ninja_do ns lim (Assign k v) this = snd (Ninja_assign k v this)"
| "ninja_do ns lim (Rule name) this = snd (Ninja_rule name this)"
| "ninja_do ns lim (Edge tgts) this = snd (Ninja_edge tgts this)"
| "ninja_do ns lim (OnRule h c) this =
     (if h < length (rules this) then this\<lparr>rules := (rules this)[h := rule_do c (rules this ! h)]\<rparr>
      else this)"
| "ninja_do ns lim (OnEdge h c) this =
     (if h < length (edges this) then this\<lparr>edges := (edges this)[h := edge_do ns lim c (edges this ! h)]\<rparr>
      else this)"

definition run_calls ::
  "('n \<Rightarrow> string) \<Rightarrow> nat \<Rightarrow> 'n ninja_call list \<Rightarrow> 'n NinjaBuilder \<Rightarrow> 'n NinjaBuilder" where
  "run_calls ns lim cs this = fold (ninja_do ns lim) cs this"

text \<open>The arguments of the calls of one method in a call sequence, in call order.\<close>

definition restat_args :: "rule_call list \<Rightarrow> bool list" where
  "restat_args cs = [b. Restat b \<leftarrow> cs]"

definition generator_args :: "rule_call list \<Rightarrow> bool list" where
  "generator_args cs = [b. Generator b \<leftarrow> cs]"

definition using_args :: "'n edge_call list \<Rightarrow> string list" where
  "using_args cs = [r. Using r \<leftarrow> cs]"

definition from_args :: "'n edge_call list \<Rightarrow> str_or_list list" where
  "from_args cs = [x. From x \<leftarrow> cs]"

definition need_args :: "'n edge_call list \<Rightarrow> str_or_list list" where
  "need_args cs = [x. Need x \<leftarrow> cs]"

definition after_args :: "'n edge_call list \<Rightarrow> str_or_list list" where
  "after_args cs = [x. After x \<leftarrow> cs]"

text \<open>The arguments that a \<^verbatim>\<open>push\<close> takes: every single string, and the lists within the limit.\<close>

definition within_limit :: "nat \<Rightarrow> str_or_list \<Rightarrow> bool" where
  "within_limit lim arg = (case arg of One s \<Rightarrow> True | Many ss \<Rightarrow> length ss \<le> lim)"

text \<open>The property key is the text of the name; the value is stored as it is.\<close>

definition assign_args :: "('n \<Rightarrow> string) \<Rightarrow> 'n edge_call list \<Rightarrow> (string \<times> 'n prim) list" where
  "assign_args ns cs = [(toStr ns k, v). EdgeAssign k v \<leftarrow> cs]"

definition rule_names :: "'n ninja_call list \<Rightarrow> string list" where
  "rule_names cs = [name. Rule name \<leftarrow> cs]"

definition edge_targets :: "'n ninja_call list \<Rightarrow> string list list" where
  "edge_targets cs = [items tgts. Edge tgts \<leftarrow> cs]"

definition assign_clauses :: "'n ninja_call list \<Rightarrow> 'n NinjaAssignBuilder list" where
  "assign_clauses cs = [new_Assign k v. Assign k v \<leftarrow> cs]"

section \<open>The edge rendering as the specification words it\<close>

text \<open>
  The specification's render algorithm for an edge emits each of the three input lists
  only ``if the accumulator is non-empty''. This is that reading, to be compared with
  \<open>Edge_write\<close>, which tests whether the accumulator exists.
\<close>

definition spec_Edge_text :: "('n \<Rightarrow> string) \<Rightarrow> 'n NinjaEdgeBuilder \<Rightarrow> string" where
  "spec_Edge_text ns e =
     ''build '' @ join '' '' (targets e) @ '': '' @ e_rule e
     @ (case sources e of None \<Rightarrow> []
        | Some xs \<Rightarrow> if xs = [] then [] else '' '' @ join '' '' xs)
     @ (case dependencies e of None \<Rightarrow> []
        | Some xs \<Rightarrow> if xs = [] then [] else '' | '' @ join '' '' xs)
     @ (case orderDeps e of None \<Rightarrow> []
        | Some xs \<Rightarrow> if xs = [] then [] else '' || '' @ join '' '' xs)
     @ concat (map (\<lambda>entry. NL @ ''  '' @ fst entry @ '' = '' @ toStr ns (snd entry))
                 (Object_entries (assigns e)))
     @ NL
     @ (case e_pool e of None \<Rightarrow> [] | Some p \<Rightarrow> ''  pool = '' @ p @ NL)"

text \<open>
  The order in which a sequence of keys was first inserted: every key once, at the place
  of its first occurrence.
\<close>

definition first_insertion_order :: "string list \<Rightarrow> string list" where
  "first_insertion_order ks = rev (remdups (rev ks))"

text \<open>
  The keys under which a call sequence stores local bindings of an edge: the texts of the
  names given to \<^verbatim>\<open>assign\<close>, without \<^verbatim>\<open>__proto__\<close>, for which nothing is stored.
\<close>

definition assigned_keys :: "('n \<Rightarrow> string) \<Rightarrow> 'n edge_call list \<Rightarrow> string list" where
  "assigned_keys ns cs = filter (\<lambda>k. k \<noteq> ''__proto__'') (map fst (assign_args ns cs))"

section \<open>Properties of escape\<close>

lemma replace_class_g_concat:
  "replace_class_g cls fn s = concat (map (\<lambda>c. if cls c then fn [c] else [c]) s)"
  by (induction s) simp_all

text \<open>
  C4: escape replaces every space, colon and dollar sign by a dollar sign followed by the
  character itself and copies every other character; the string of the test suite,
  \<^verbatim>\<open>foo:bar$glo fiz.js\<close>, becomes \<^verbatim>\<open>foo$:bar$$glo$ fiz.js\<close>.
\<close>

theorem escape_spec:
  "escape s =
     concat (map (\<lambda>c. if c = CHR '' '' \<or> c = CHR '':'' \<or> c = CHR ''$''
                       then [CHR ''$'', c] else [c]) s)
   \<and> escape ''foo:bar$glo fiz.js'' = ''foo$:bar$$glo$ fiz.js''"
proof
  show "escape s =
     concat (map (\<lambda>c. if c = CHR '' '' \<or> c = CHR '':'' \<or> c = CHR ''$''
                       then [CHR ''$'', c] else [c]) s)"
    unfolding escape_def replace_class_g_concat
    by (rule arg_cong [where f = concat]) auto
  show "escape ''foo:bar$glo fiz.js'' = ''foo$:bar$$glo$ fiz.js''"
    by (simp add: escape_def)
qed

section \<open>What a write method appends to the sink\<close>

lemma buffer_text_append: "buffer_text (st @ st') = buffer_text st @ buffer_text st'"
  by (simp add: buffer_text_def)

lemma buffer_text_Nil: "buffer_text [] = []"
  by (simp add: buffer_text_def)

lemma fold_stream_write:
  "fold (\<lambda>x s. stream_write s (f x)) xs st = st @ map f xs"
  by (induction xs arbitrary: st) (simp_all add: stream_write_def)

lemma opt_write:
  "(case x of None \<Rightarrow> st | Some v \<Rightarrow> stream_write st (f v))
     = st @ (case x of None \<Rightarrow> [] | Some v \<Rightarrow> [f v])"
  by (cases x) (simp_all add: stream_write_def)

lemma opt_write2:
  "(case x of None \<Rightarrow> st | Some v \<Rightarrow> stream_write (stream_write st (f v)) s)
     = st @ (case x of None \<Rightarrow> [] | Some v \<Rightarrow> [f v, s])"
  by (cases x) (simp_all add: stream_write_def)

lemma if_write:
  "(if b then stream_write st s else st) = st @ (if b then [s] else [])"
  by (simp add: stream_write_def)

lemma concat_opt:
  "concat (case x of None \<Rightarrow> [] | Some v \<Rightarrow> [f v]) = (case x of None \<Rightarrow> [] | Some v \<Rightarrow> f v)"
  by (cases x) simp_all

lemma concat_opt2:
  "concat (case x of None \<Rightarrow> [] | Some v \<Rightarrow> [f v, s]) = (case x of None \<Rightarrow> [] | Some v \<Rightarrow> f v @ s)"
  by (cases x) simp_all

lemma concat_if:
  "concat (if b then [s] else []) = (if b then s else [])"
  by simp

lemma truthy_iff: "truthy b = (b = Some True)"
  by (cases b) (simp_all add: truthy_def)

lemma Assign_write_chunks:
  "Assign_write ns a st =
     (a, st @ [toStr ns (a_name a) @ '' = '' @ toStr ns (a_value a) @ NL])"
  by (simp add: Assign_write_def stream_write_def)

lemma Rule_write_chunks:
  "Rule_write r st = (r, st
     @ [''rule '' @ r_name r @ NL @ ''  command = '' @ command r @ NL]
     @ (case desc r of None \<Rightarrow> [] | Some d \<Rightarrow> [''  description = '' @ d @ NL])
     @ (if doRestat r = Some True then [''  restat = 1'' @ NL] else [])
     @ (if isGenerator r = Some True then [''  generator = 1'' @ NL] else [])
     @ (case r_pool r of None \<Rightarrow> [] | Some p \<Rightarrow> [''  pool = '' @ p @ NL])
     @ (case dependencyFile r of None \<Rightarrow> []
        | Some f \<Rightarrow> [''  depfile = '' @ f @ NL, ''  deps = gcc'' @ NL]))"
  unfolding Rule_write_def Let_def opt_write opt_write2 if_write truthy_iff
  by (simp add: stream_write_def)

lemma Edge_write_chunks:
  "Edge_write ns e st = (e, st
     @ [''build '' @ join '' '' (targets e) @ '': '' @ e_rule e]
     @ (case sources e of None \<Rightarrow> [] | Some xs \<Rightarrow> ['' '' @ join '' '' xs])
     @ (case dependencies e of None \<Rightarrow> [] | Some xs \<Rightarrow> ['' | '' @ join '' '' xs])
     @ (case orderDeps e of None \<Rightarrow> [] | Some xs \<Rightarrow> ['' || '' @ join '' '' xs])
     @ map (\<lambda>entry. NL @ ''  '' @ fst entry @ '' = '' @ toStr ns (snd entry))
         (Object_entries (assigns e))
     @ [NL]
     @ (case e_pool e of None \<Rightarrow> [] | Some p \<Rightarrow> [''  pool = '' @ p @ NL]))"
  unfolding Edge_write_def Let_def opt_write fold_stream_write
  by (simp add: stream_write_def)

lemma Assign_write_app: "Assign_write ns a st = (a, st @ snd (Assign_write ns a []))"
  by (simp add: Assign_write_chunks)

lemma Rule_write_app: "Rule_write r st = (r, st @ snd (Rule_write r []))"
  by (simp only: Rule_write_chunks snd_conv append_Nil)

lemma Edge_write_app: "Edge_write ns e st = (e, st @ snd (Edge_write ns e []))"
  by (simp only: Edge_write_chunks snd_conv append_Nil)

lemma Rule_write_text:
  "buffer_text (snd (Rule_write r st)) = buffer_text st
     @ ''rule '' @ r_name r @ NL
     @ ''  command = '' @ command r @ NL
     @ (case desc r of None \<Rightarrow> [] | Some d \<Rightarrow> ''  description = '' @ d @ NL)
     @ (if doRestat r = Some True then ''  restat = 1'' @ NL else [])
     @ (if isGenerator r = Some True then ''  generator = 1'' @ NL else [])
     @ (case r_pool r of None \<Rightarrow> [] | Some p \<Rightarrow> ''  pool = '' @ p @ NL)
     @ (case dependencyFile r of None \<Rightarrow> []
        | Some f \<Rightarrow> ''  depfile = '' @ f @ NL @ ''  deps = gcc'' @ NL)"
  unfolding Rule_write_chunks snd_conv buffer_text_def concat_append concat_opt concat_opt2 concat_if
  by (simp cong: option.case_cong)

lemma Edge_write_text:
  "buffer_text (snd (Edge_write ns e st)) = buffer_text st
     @ ''build '' @ join '' '' (targets e) @ '': '' @ e_rule e
     @ (case sources e of None \<Rightarrow> [] | Some xs \<Rightarrow> '' '' @ join '' '' xs)
     @ (case dependencies e of None \<Rightarrow> [] | Some xs \<Rightarrow> '' | '' @ join '' '' xs)
     @ (case orderDeps e of None \<Rightarrow> [] | Some xs \<Rightarrow> '' || '' @ join '' '' xs)
     @ concat (map (\<lambda>entry. NL @ ''  '' @ fst entry @ '' = '' @ toStr ns (snd entry))
                 (Object_entries (assigns e)))
     @ NL
     @ (case e_pool e of None \<Rightarrow> [] | Some p \<Rightarrow> ''  pool = '' @ p @ NL)"
  unfolding Edge_write_chunks snd_conv buffer_text_def concat_append concat_opt
  by simp

lemma Assign_write_text:
  "buffer_text (snd (Assign_write ns a st)) = buffer_text st
     @ toStr ns (a_name a) @ '' = '' @ toStr ns (a_value a) @ NL"
  by (simp add: Assign_write_chunks buffer_text_def)

section \<open>Sequences of edge calls\<close>

lemma push_onto_eq:
  "push_onto lim acc arg =
     (if within_limit lim arg
      then Returns (Some ((case acc of None \<Rightarrow> [] | Some xs \<Rightarrow> xs) @ items arg))
      else Throws RangeError (Some (case acc of None \<Rightarrow> [] | Some xs \<Rightarrow> xs)))"
  by (cases arg) (simp_all add: push_onto_def within_limit_def)

lemma Edge_from_state:
  "state_after (Edge_from lim x e) =
     e\<lparr>sources := Some ((case sources e of None \<Rightarrow> [] | Some xs \<Rightarrow> xs)
                         @ (if within_limit lim x then items x else []))\<rparr>"
  by (simp add: Edge_from_def push_onto_eq)

lemma Edge_need_state:
  "state_after (Edge_need lim x e) =
     e\<lparr>dependencies := Some ((case dependencies e of None \<Rightarrow> [] | Some xs \<Rightarrow> xs)
                              @ (if within_limit lim x then items x else []))\<rparr>"
  by (simp add: Edge_need_def push_onto_eq)

lemma Edge_after_state:
  "state_after (Edge_after lim x e) =
     e\<lparr>orderDeps := Some ((case orderDeps e of None \<Rightarrow> [] | Some xs \<Rightarrow> xs)
                           @ (if within_limit lim x then items x else []))\<rparr>"
  by (simp add: Edge_after_def push_onto_eq)

lemma args_Nil:
  "restat_args [] = []" "generator_args [] = []" "using_args [] = []" "from_args [] = []"
  "need_args [] = []" "after_args [] = []" "assign_args ns [] = []"
  by (simp_all add: restat_args_def generator_args_def using_args_def from_args_def
      need_args_def after_args_def assign_args_def)

lemma edge_args_Cons:
  "using_args (c # cs) = (case c of Using r \<Rightarrow> [r] | _ \<Rightarrow> []) @ using_args cs"
  "from_args (c # cs) = (case c of From x \<Rightarrow> [x] | _ \<Rightarrow> []) @ from_args cs"
  "need_args (c # cs) = (case c of Need x \<Rightarrow> [x] | _ \<Rightarrow> []) @ need_args cs"
  "after_args (c # cs) = (case c of After x \<Rightarrow> [x] | _ \<Rightarrow> []) @ after_args cs"
  "assign_args ns (c # cs) =
     (case c of EdgeAssign k v \<Rightarrow> [(toStr ns k, v)] | _ \<Rightarrow> []) @ assign_args ns cs"
  by (simp_all add: using_args_def from_args_def need_args_def after_args_def assign_args_def)

lemmas Edge_defs =
  Edge_using_def Edge_from_state Edge_need_state Edge_after_state Edge_assign_def Edge_pool_def

lemma e_rule_fold:
  "using_args cs = [] \<Longrightarrow> e_rule (fold (edge_do ns lim) cs e) = e_rule e"
proof (induction cs arbitrary: e)
  case Nil
  show ?case by simp
next
  case (Cons c cs)
  then show ?case
    by (cases c) (simp_all add: edge_args_Cons Edge_defs)
qed

lemma targets_fold: "targets (fold (edge_do ns lim) cs e) = targets e"
proof (induction cs arbitrary: e)
  case Nil
  show ?case by simp
next
  case (Cons c cs)
  show ?case
    by (cases c) (simp_all add: Cons.IH Edge_defs)
qed

lemma sources_fold:
  "sources (fold (edge_do ns lim) cs e) =
     (if from_args cs = [] then sources e
      else Some ((case sources e of None \<Rightarrow> [] | Some xs \<Rightarrow> xs)
                 @ concat (map items (filter (within_limit lim) (from_args cs)))))"
proof (induction cs arbitrary: e)
  case Nil
  show ?case by (simp add: args_Nil)
next
  case (Cons c cs)
  show ?case
    by (cases c) (simp_all add: Cons.IH edge_args_Cons Edge_defs)
qed

lemma dependencies_fold:
  "dependencies (fold (edge_do ns lim) cs e) =
     (if need_args cs = [] then dependencies e
      else Some ((case dependencies e of None \<Rightarrow> [] | Some xs \<Rightarrow> xs)
                 @ concat (map items (filter (within_limit lim) (need_args cs)))))"
proof (induction cs arbitrary: e)
  case Nil
  show ?case by (simp add: args_Nil)
next
  case (Cons c cs)
  show ?case
    by (cases c) (simp_all add: Cons.IH edge_args_Cons Edge_defs)
qed

lemma orderDeps_fold:
  "orderDeps (fold (edge_do ns lim) cs e) =
     (if after_args cs = [] then orderDeps e
      else Some ((case orderDeps e of None \<Rightarrow> [] | Some xs \<Rightarrow> xs)
                 @ concat (map items (filter (within_limit lim) (after_args cs)))))"
proof (induction cs arbitrary: e)
  case Nil
  show ?case by (simp add: args_Nil)
next
  case (Cons c cs)
  show ?case
    by (cases c) (simp_all add: Cons.IH edge_args_Cons Edge_defs)
qed

section \<open>Rendering of a rule\<close>

text \<open>
  C2: a rule is written as \<^verbatim>\<open>rule <name>\<close>, then the command line (also when the
  command is empty, as for a rule on which \<^verbatim>\<open>run\<close> was never called), then, in this
  order and each only when its field is set or true, the description, restat, generator
  and pool lines, and last the depfile line followed by \<^verbatim>\<open>deps = gcc\<close>.
\<close>

theorem Rule_write_spec:
  "buffer_text (snd (Rule_write r st)) = buffer_text st
     @ ''rule '' @ r_name r @ NL
     @ ''  command = '' @ command r @ NL
     @ (case desc r of None \<Rightarrow> [] | Some d \<Rightarrow> ''  description = '' @ d @ NL)
     @ (if doRestat r = Some True then ''  restat = 1'' @ NL else [])
     @ (if isGenerator r = Some True then ''  generator = 1'' @ NL else [])
     @ (case r_pool r of None \<Rightarrow> [] | Some p \<Rightarrow> ''  pool = '' @ p @ NL)
     @ (case dependencyFile r of None \<Rightarrow> []
        | Some f \<Rightarrow> ''  depfile = '' @ f @ NL @ ''  deps = gcc'' @ NL)
   \<and> buffer_text (snd (Rule_write (new_Rule n) [])) = ''rule '' @ n @ NL @ ''  command = '' @ NL"
  by (simp only: Rule_write_text) (simp add: new_Rule_def buffer_text_def)

section \<open>Rendering of an edge\<close>

text \<open>
  C3, as amended: an edge is written as \<^verbatim>\<open>build <targets>: <rule>\<close>, the rule being
  \<^verbatim>\<open>phony\<close> when \<^verbatim>\<open>using\<close> was never called; then a space and the sources if the
  sources accumulator exists (also when it is empty), and likewise \<^verbatim>\<open> | \<close> with the
  dependencies and \<^verbatim>\<open> || \<close> with the order-only dependencies; then one line per local
  binding, a newline, and the pool line if a pool is set. When no accumulator is present
  but empty this is the text the specification describes.
\<close>

theorem Edge_write_spec:
  "buffer_text (snd (Edge_write ns e st)) = buffer_text st
     @ ''build '' @ join '' '' (targets e) @ '': '' @ e_rule e
     @ (case sources e of None \<Rightarrow> [] | Some xs \<Rightarrow> '' '' @ join '' '' xs)
     @ (case dependencies e of None \<Rightarrow> [] | Some xs \<Rightarrow> '' | '' @ join '' '' xs)
     @ (case orderDeps e of None \<Rightarrow> [] | Some xs \<Rightarrow> '' || '' @ join '' '' xs)
     @ concat (map (\<lambda>entry. NL @ ''  '' @ fst entry @ '' = '' @ toStr ns (snd entry))
                 (Object_entries (assigns e)))
     @ NL
     @ (case e_pool e of None \<Rightarrow> [] | Some p \<Rightarrow> ''  pool = '' @ p @ NL)
   \<and> (using_args cs = [] \<longrightarrow> e_rule (fold (edge_do ns lim) cs (new_Edge tgts)) = ''phony'')
   \<and> (sources e \<noteq> Some [] \<and> dependencies e \<noteq> Some [] \<and> orderDeps e \<noteq> Some []
        \<longrightarrow> buffer_text (snd (Edge_write ns e [])) = spec_Edge_text ns e)"
proof (intro conjI impI)
  show "using_args cs = [] \<Longrightarrow> e_rule (fold (edge_do ns lim) cs (new_Edge tgts)) = ''phony''"
    by (simp add: e_rule_fold new_Edge_def)
  assume "sources e \<noteq> Some [] \<and> dependencies e \<noteq> Some [] \<and> orderDeps e \<noteq> Some []"
  then show "buffer_text (snd (Edge_write ns e [])) = spec_Edge_text ns e"
    unfolding Edge_write_text spec_Edge_text_def
    by (simp add: buffer_text_def split: option.splits)
qed (rule Edge_write_text)

theorem Edge_write_spec_witness:
  "buffer_text (snd (Edge_write decimal
      (fold (edge_do decimal 125000) [From (One ''debug''), EdgeAssign (Str ''foobar'') (Num 42)]
         (new_Edge (Many [''phony1'', ''phony2''])))
      [])) = ''build phony1 phony2: phony debug'' @ NL @ ''  foobar = 42'' @ NL
   \<and> using_args [From (One ''debug''), EdgeAssign (Str ''foobar'') (Num (42::nat))] = []
   \<and> e_rule (fold (edge_do decimal 125000) [From (One ''debug''), EdgeAssign (Str ''foobar'') (Num 42)]
         (new_Edge (Many [''phony1'', ''phony2'']))) = ''phony''
   \<and> spec_Edge_text decimal
        (fold (edge_do decimal 125000) [From (One ''debug''), EdgeAssign (Str ''foobar'') (Num 42)]
         (new_Edge (Many [''phony1'', ''phony2''])))
       = ''build phony1 phony2: phony debug'' @ NL @ ''  foobar = 42'' @ NL"
proof -
  let ?cs = "[From (One ''debug''), EdgeAssign (Str ''foobar'') (Num (42::nat))]"
  let ?e = "fold (edge_do decimal 125000) ?cs (new_Edge (Many [''phony1'', ''phony2'']))"
  have e: "?e = \<lparr>targets = [''phony1'', ''phony2''], assigns = [(''foobar'', Num 42)],
      e_rule = ''phony'', sources = Some [''debug''], dependencies = None, orderDeps = None,
      e_pool = None\<rparr>"
    by (simp add: new_Edge_def Edge_from_state within_limit_def Edge_assign_def obj_set_def)
  have oe: "Object_entries [(''foobar'', Num (42::nat))] = [(''foobar'', Num 42)]"
    by (simp add: Object_entries_def is_array_index_def is_digit_def)
  have d: "decimal 42 = ''42''"
    by code_simp
  have nu: "using_args ?cs = []"
    by (simp add: using_args_def)
  have pre: "sources ?e \<noteq> Some [] \<and> dependencies ?e \<noteq> Some [] \<and> orderDeps ?e \<noteq> Some []"
    by (simp add: new_Edge_def Edge_from_state within_limit_def Edge_assign_def)
  from Edge_write_spec [where ns = decimal and e = ?e and st = "[]" and cs = ?cs
      and lim = 125000 and tgts = "Many [''phony1'', ''phony2'']"] nu pre
  have "buffer_text (snd (Edge_write decimal ?e [])) = spec_Edge_text decimal ?e"
    and "e_rule ?e = ''phony''"
    by blast+
  moreover have "spec_Edge_text decimal ?e
      = ''build phony1 phony2: phony debug'' @ NL @ ''  foobar = 42'' @ NL"
    unfolding e by (simp add: spec_Edge_text_def oe d)
  ultimately show ?thesis
    using nu by simp
qed

text \<open>
  C3 as stated fails after \<^verbatim>\<open>edge('a').from([])\<close>: the accumulator is empty, and the
  code still writes the separating space.
\<close>

theorem Edge_write_nonempty_counterexample:
  "buffer_text (snd (Edge_write decimal (state_after (Edge_from 125000 (Many []) (new_Edge (One ''a'')))) []))
     = ''build a: phony '' @ NL
   \<and> spec_Edge_text decimal (state_after (Edge_from 125000 (Many []) (new_Edge (One ''a'')))) = ''build a: phony'' @ NL
   \<and> buffer_text (snd (Edge_write decimal (state_after (Edge_from 125000 (Many []) (new_Edge (One ''a'')))) []))
     \<noteq> spec_Edge_text decimal (state_after (Edge_from 125000 (Many []) (new_Edge (One ''a''))))"
  by (simp add: Edge_write_text spec_Edge_text_def Edge_from_state within_limit_def new_Edge_def
      Object_entries_def buffer_text_Nil)

section \<open>Accumulating calls on an edge\<close>

text \<open>
  What the three accumulating methods do, for every sequence of calls and every limit of
  the runtime: an accumulator is untouched while its method is not called; afterwards it
  holds what it held before, followed in call order by the arguments of the calls that
  returned. A call with a list beyond the limit throws and adds nothing.
\<close>

lemma accumulate_exact:
  "sources (fold (edge_do ns lim) cs e) =
     (if from_args cs = [] then sources e
      else Some ((case sources e of None \<Rightarrow> [] | Some xs \<Rightarrow> xs)
                 @ concat (map items (filter (within_limit lim) (from_args cs)))))
   \<and> dependencies (fold (edge_do ns lim) cs e) =
     (if need_args cs = [] then dependencies e
      else Some ((case dependencies e of None \<Rightarrow> [] | Some xs \<Rightarrow> xs)
                 @ concat (map items (filter (within_limit lim) (need_args cs)))))
   \<and> orderDeps (fold (edge_do ns lim) cs e) =
     (if after_args cs = [] then orderDeps e
      else Some ((case orderDeps e of None \<Rightarrow> [] | Some xs \<Rightarrow> xs)
                 @ concat (map items (filter (within_limit lim) (after_args cs)))))"
  by (intro conjI) (rule sources_fold dependencies_fold orderDeps_fold)+

text \<open>
  The accumulated sources of the test suite, on a runtime that takes at least two
  arguments: both calls return, and the edge renders the three names in call order.
\<close>

lemma accumulate_example:
  "2 \<le> lim \<Longrightarrow>
   Edge_from lim (One ''debug'') (new_Edge (One ''dist''))
     = Returns ((new_Edge (One ''dist''))\<lparr>sources := Some [''debug'']\<rparr>)
   \<and> Edge_from lim (Many [''release'', ''lint''])
        ((new_Edge (One ''dist''))\<lparr>sources := Some [''debug'']\<rparr>)
     = Returns ((new_Edge (One ''dist''))\<lparr>sources := Some [''debug'', ''release'', ''lint'']\<rparr>)
   \<and> buffer_text (snd (Edge_write ns
        ((new_Edge (One ''dist''))\<lparr>sources := Some [''debug'', ''release'', ''lint'']\<rparr>) []))
     = ''build dist: phony debug release lint'' @ NL"
  by (simp add: Edge_from_def push_onto_def Edge_write_text new_Edge_def Object_entries_def
      buffer_text_Nil)

text \<open>
  C5 is what the methods are written to do and what the test suite checks, and the code
  misses it for a long list. V8 with its default stack takes a spread of 125000 elements
  and refuses one of 130000. On a new edge \<^verbatim>\<open>from\<close> with a list of 130000 names throws
  \<^verbatim>\<open>RangeError\<close>, and so do \<^verbatim>\<open>need\<close> and \<^verbatim>\<open>after\<close>; none of the names is appended,
  the accumulator is left present and empty, and the edge renders with the bare
  separator where the claim has the 130000 names.
\<close>

theorem accumulate_long_list_throws:
  "Edge_from 125000 (Many (replicate 130000 ''a'')) (new_Edge (One ''dist'') :: nat NinjaEdgeBuilder)
     = Throws RangeError ((new_Edge (One ''dist''))\<lparr>sources := Some []\<rparr>)
   \<and> Edge_need 125000 (Many (replicate 130000 ''a'')) (new_Edge (One ''dist'') :: nat NinjaEdgeBuilder)
     = Throws RangeError ((new_Edge (One ''dist''))\<lparr>dependencies := Some []\<rparr>)
   \<and> Edge_after 125000 (Many (replicate 130000 ''a'')) (new_Edge (One ''dist'') :: nat NinjaEdgeBuilder)
     = Throws RangeError ((new_Edge (One ''dist''))\<lparr>orderDeps := Some []\<rparr>)
   \<and> sources (fold (edge_do decimal 125000)
        [From (One ''debug''), From (Many (replicate 130000 ''a''))] (new_Edge (One ''dist'')))
     = Some [''debug'']
   \<and> buffer_text (snd (Edge_write decimal
        (state_after (Edge_from 125000 (Many (replicate 130000 ''a'')) (new_Edge (One ''dist'')))) []))
     = ''build dist: phony '' @ NL"
  by (simp add: Edge_from_def Edge_need_def Edge_after_def push_onto_def Edge_write_text
      new_Edge_def Object_entries_def buffer_text_Nil)

text \<open>
  C9: on a fresh edge \<^verbatim>\<open>from([])\<close> leaves the sources accumulator present and empty,
  and the build line then ends with a space before the newline, which the line of the
  untouched edge does not have.
\<close>

theorem from_empty_spec:
  "Edge_from lim (Many []) (new_Edge tgts :: 'n NinjaEdgeBuilder)
       = Returns ((new_Edge tgts)\<lparr>sources := Some []\<rparr>)
   \<and> sources (state_after (Edge_from lim (Many []) (new_Edge tgts :: 'n NinjaEdgeBuilder))) = Some []
   \<and> sources (new_Edge tgts :: 'n NinjaEdgeBuilder) = None
   \<and> buffer_text (snd (Edge_write ns (state_after (Edge_from lim (Many []) (new_Edge tgts))) []))
       = ''build '' @ join '' '' (items tgts) @ '': phony '' @ NL
   \<and> buffer_text (snd (Edge_write ns (new_Edge tgts) []))
       = ''build '' @ join '' '' (items tgts) @ '': phony'' @ NL
   \<and> buffer_text (snd (Edge_write ns (state_after (Edge_from lim (Many []) (new_Edge tgts))) []))
       \<noteq> buffer_text (snd (Edge_write ns (new_Edge tgts) []))"
  by (cases tgts)
    (simp_all add: Edge_write_text Edge_from_def push_onto_def new_Edge_def Object_entries_def
      buffer_text_Nil)

text \<open>
  C10: the constructor stores a list of targets as it is, the empty one included, and
  wraps a single string; an edge with no targets and no other call renders
  \<^verbatim>\<open>build : phony\<close> and a newline.
\<close>

theorem empty_targets_spec:
  "targets (new_Edge (Many ts) :: 'n NinjaEdgeBuilder) = ts
   \<and> targets (new_Edge (One s) :: 'n NinjaEdgeBuilder) = [s]
   \<and> targets (new_Edge (Many []) :: 'n NinjaEdgeBuilder) = []
   \<and> buffer_text (snd (Edge_write ns (new_Edge (Many [])) [])) = ''build : phony'' @ NL"
  by (simp add: Edge_write_text new_Edge_def Object_entries_def buffer_text_Nil)

section \<open>Sequences of rule calls\<close>

lemmas Rule_defs =
  Rule_run_def Rule_description_def Rule_depfile_def Rule_restat_def Rule_generator_def
  Rule_pool_def

lemma rule_args_Cons:
  "restat_args (c # cs) = (case c of Restat b \<Rightarrow> [b] | _ \<Rightarrow> []) @ restat_args cs"
  "generator_args (c # cs) = (case c of Generator b \<Rightarrow> [b] | _ \<Rightarrow> []) @ generator_args cs"
  by (simp_all add: restat_args_def generator_args_def)

lemma rule_args_append:
  "restat_args (cs @ cs') = restat_args cs @ restat_args cs'"
  "generator_args (cs @ cs') = generator_args cs @ generator_args cs'"
  by (simp_all add: restat_args_def generator_args_def)

lemma rule_do_doRestat:
  "restat_args [c] = [] \<Longrightarrow> rule_do c (r\<lparr>doRestat := x\<rparr>) = (rule_do c r)\<lparr>doRestat := x\<rparr>"
  by (cases c) (simp_all add: Rule_defs restat_args_def)

lemma rule_do_isGenerator:
  "generator_args [c] = [] \<Longrightarrow>
     rule_do c (r\<lparr>isGenerator := x\<rparr>) = (rule_do c r)\<lparr>isGenerator := x\<rparr>"
  by (cases c) (simp_all add: Rule_defs generator_args_def)

lemma fold_rule_do_doRestat:
  "restat_args cs = [] \<Longrightarrow>
     fold rule_do cs (r\<lparr>doRestat := x\<rparr>) = (fold rule_do cs r)\<lparr>doRestat := x\<rparr>"
proof (induction cs arbitrary: r)
  case Nil
  show ?case by simp
next
  case (Cons c cs)
  from Cons.prems have c: "restat_args [c] = []" and cs: "restat_args cs = []"
    by (simp_all add: rule_args_Cons [of c cs] rule_args_Cons [of c "[]"] args_Nil)
  have "fold rule_do (c # cs) (r\<lparr>doRestat := x\<rparr>) = fold rule_do cs (rule_do c (r\<lparr>doRestat := x\<rparr>))"
    by simp
  also have "\<dots> = fold rule_do cs ((rule_do c r)\<lparr>doRestat := x\<rparr>)"
    by (simp only: rule_do_doRestat [OF c])
  also have "\<dots> = (fold rule_do cs (rule_do c r))\<lparr>doRestat := x\<rparr>"
    by (rule Cons.IH [OF cs])
  finally show ?case by simp
qed

lemma fold_rule_do_isGenerator:
  "generator_args cs = [] \<Longrightarrow>
     fold rule_do cs (r\<lparr>isGenerator := x\<rparr>) = (fold rule_do cs r)\<lparr>isGenerator := x\<rparr>"
proof (induction cs arbitrary: r)
  case Nil
  show ?case by simp
next
  case (Cons c cs)
  from Cons.prems have c: "generator_args [c] = []" and cs: "generator_args cs = []"
    by (simp_all add: rule_args_Cons [of c cs] rule_args_Cons [of c "[]"] args_Nil)
  have "fold rule_do (c # cs) (r\<lparr>isGenerator := x\<rparr>)
      = fold rule_do cs (rule_do c (r\<lparr>isGenerator := x\<rparr>))"
    by simp
  also have "\<dots> = fold rule_do cs ((rule_do c r)\<lparr>isGenerator := x\<rparr>)"
    by (simp only: rule_do_isGenerator [OF c])
  also have "\<dots> = (fold rule_do cs (rule_do c r))\<lparr>isGenerator := x\<rparr>"
    by (rule Cons.IH [OF cs])
  finally show ?case by simp
qed

lemma doRestat_fold:
  "restat_args cs = [] \<Longrightarrow> doRestat (fold rule_do cs r) = doRestat r"
proof (induction cs arbitrary: r)
  case Nil
  show ?case by simp
next
  case (Cons c cs)
  then show ?case
    by (cases c) (simp_all add: rule_args_Cons Rule_defs)
qed

lemma isGenerator_fold:
  "generator_args cs = [] \<Longrightarrow> isGenerator (fold rule_do cs r) = isGenerator r"
proof (induction cs arbitrary: r)
  case Nil
  show ?case by simp
next
  case (Cons c cs)
  then show ?case
    by (cases c) (simp_all add: rule_args_Cons Rule_defs)
qed

lemma Rule_write_restat_False:
  "doRestat r = None \<Longrightarrow>
     snd (Rule_write (r\<lparr>doRestat := Some False\<rparr>) st) = snd (Rule_write r st)"
  by (simp add: Rule_write_chunks)

lemma Rule_write_generator_False:
  "isGenerator r = None \<Longrightarrow>
     snd (Rule_write (r\<lparr>isGenerator := Some False\<rparr>) st) = snd (Rule_write r st)"
  by (simp add: Rule_write_chunks)

lemma Rule_write_False_None:
  "snd (Rule_write (r\<lparr>doRestat := Some False\<rparr>) st) = snd (Rule_write (r\<lparr>doRestat := None\<rparr>) st)"
  "snd (Rule_write (r\<lparr>isGenerator := Some False\<rparr>) st)
     = snd (Rule_write (r\<lparr>isGenerator := None\<rparr>) st)"
  by (simp_all add: Rule_write_chunks)

lemma restat_False_anywhere:
  assumes "restat_args (cs1 @ cs2) = []"
  shows "snd (Rule_write (fold rule_do (cs1 @ Restat False # cs2) (new_Rule n)) st)
       = snd (Rule_write (fold rule_do (cs1 @ cs2) (new_Rule n)) st)"
proof -
  from assms have a1: "restat_args cs1 = []" and a2: "restat_args cs2 = []"
    by (simp_all add: rule_args_append)
  have "fold rule_do (cs1 @ Restat False # cs2) (new_Rule n)
      = (fold rule_do (cs1 @ cs2) (new_Rule n))\<lparr>doRestat := Some False\<rparr>"
    by (simp add: Rule_restat_def fold_rule_do_doRestat [OF a2])
  moreover have "doRestat (fold rule_do (cs1 @ cs2) (new_Rule n)) = None"
    using doRestat_fold [OF assms, of "new_Rule n"] by (simp add: new_Rule_def)
  ultimately show ?thesis
    by (simp only: Rule_write_restat_False)
qed

lemma generator_False_anywhere:
  assumes "generator_args (cs1 @ cs2) = []"
  shows "snd (Rule_write (fold rule_do (cs1 @ Generator False # cs2) (new_Rule n)) st)
       = snd (Rule_write (fold rule_do (cs1 @ cs2) (new_Rule n)) st)"
proof -
  from assms have a1: "generator_args cs1 = []" and a2: "generator_args cs2 = []"
    by (simp_all add: rule_args_append)
  have "fold rule_do (cs1 @ Generator False # cs2) (new_Rule n)
      = (fold rule_do (cs1 @ cs2) (new_Rule n))\<lparr>isGenerator := Some False\<rparr>"
    by (simp add: Rule_generator_def fold_rule_do_isGenerator [OF a2])
  moreover have "isGenerator (fold rule_do (cs1 @ cs2) (new_Rule n)) = None"
    using isGenerator_fold [OF assms, of "new_Rule n"] by (simp add: new_Rule_def)
  ultimately show ?thesis
    by (simp only: Rule_write_generator_False)
qed

text \<open>
  C7, as amended: a rule whose restat field is false renders as the same rule with the
  field unset; so for a rule on which \<^verbatim>\<open>restat\<close> is otherwise never called, a call
  \<^verbatim>\<open>restat(false)\<close> anywhere among its calls leaves the rendered text as it is without
  that call. The same holds for \<^verbatim>\<open>generator(false)\<close>. Only \<^verbatim>\<open>restat(true)\<close> and
  \<^verbatim>\<open>generator(true)\<close> change what is written.
\<close>

theorem restat_false_unobservable:
  "buffer_text (snd (Rule_write (r\<lparr>doRestat := Some False\<rparr>) st))
      = buffer_text (snd (Rule_write (r\<lparr>doRestat := None\<rparr>) st))
   \<and> buffer_text (snd (Rule_write (r\<lparr>isGenerator := Some False\<rparr>) st))
      = buffer_text (snd (Rule_write (r\<lparr>isGenerator := None\<rparr>) st))
   \<and> (restat_args (cs1 @ cs2) = [] \<longrightarrow>
      buffer_text (snd (Rule_write (fold rule_do (cs1 @ Restat False # cs2) (new_Rule n)) st))
      = buffer_text (snd (Rule_write (fold rule_do (cs1 @ cs2) (new_Rule n)) st)))
   \<and> (generator_args (cs1 @ cs2) = [] \<longrightarrow>
      buffer_text (snd (Rule_write (fold rule_do (cs1 @ Generator False # cs2) (new_Rule n)) st))
      = buffer_text (snd (Rule_write (fold rule_do (cs1 @ cs2) (new_Rule n)) st)))
   \<and> buffer_text (snd (Rule_write (Rule_restat True (new_Rule n)) st))
      \<noteq> buffer_text (snd (Rule_write (new_Rule n) st))
   \<and> buffer_text (snd (Rule_write (Rule_generator True (new_Rule n)) st))
      \<noteq> buffer_text (snd (Rule_write (new_Rule n) st))"
proof (intro conjI impI)
  show "buffer_text (snd (Rule_write (Rule_restat True (new_Rule n)) st))
      \<noteq> buffer_text (snd (Rule_write (new_Rule n) st))"
    by (simp add: Rule_write_text Rule_restat_def new_Rule_def)
  show "buffer_text (snd (Rule_write (Rule_generator True (new_Rule n)) st))
      \<noteq> buffer_text (snd (Rule_write (new_Rule n) st))"
    by (simp add: Rule_write_text Rule_generator_def new_Rule_def)
qed (simp_all only: restat_False_anywhere generator_False_anywhere Rule_write_False_None)

theorem restat_false_unobservable_witness:
  "restat_args [Run ''coffee -cs'', Depfile ''$out.d''] = []
   \<and> generator_args [Run ''coffee -cs'', Depfile ''$out.d''] = []
   \<and> buffer_text (snd (Rule_write
        (fold rule_do [Run ''coffee -cs'', Restat False, Depfile ''$out.d''] (new_Rule ''coffee'')) []))
      = buffer_text (snd (Rule_write
        (fold rule_do [Run ''coffee -cs'', Depfile ''$out.d''] (new_Rule ''coffee'')) []))
   \<and> buffer_text (snd (Rule_write
        (fold rule_do [Run ''coffee -cs'', Generator False, Depfile ''$out.d''] (new_Rule ''coffee'')) []))
      = buffer_text (snd (Rule_write
        (fold rule_do [Run ''coffee -cs'', Depfile ''$out.d''] (new_Rule ''coffee'')) []))
   \<and> buffer_text (snd (Rule_write
        (fold rule_do [Run ''coffee -cs'', Depfile ''$out.d''] (new_Rule ''coffee'')) []))
      = ''rule coffee'' @ NL @ ''  command = coffee -cs'' @ NL @ ''  depfile = $out.d'' @ NL
        @ ''  deps = gcc'' @ NL"
proof -
  have r: "restat_args [Run ''coffee -cs'', Depfile ''$out.d''] = []"
    and g: "generator_args [Run ''coffee -cs'', Depfile ''$out.d''] = []"
    by (simp_all add: restat_args_def generator_args_def)
  have t: "buffer_text (snd (Rule_write
        (fold rule_do [Run ''coffee -cs'', Depfile ''$out.d''] (new_Rule ''coffee'')) []))
      = ''rule coffee'' @ NL @ ''  command = coffee -cs'' @ NL @ ''  depfile = $out.d'' @ NL
        @ ''  deps = gcc'' @ NL"
    by (simp add: Rule_write_text Rule_run_def Rule_depfile_def new_Rule_def buffer_text_Nil)
  from restat_false_unobservable
    [where ?cs1.0 = "[Run ''coffee -cs'']" and ?cs2.0 = "[Depfile ''$out.d'']"
       and n = "''coffee''" and st = "[]"] r g t
  show ?thesis
    by simp
qed

text \<open>
  C7 as stated asks for a rule whose rendering tells \<^verbatim>\<open>restat(false)\<close> from no call of
  \<^verbatim>\<open>restat\<close>. There is none: \<^verbatim>\<open>write\<close> tests the truthiness of the field.
\<close>

theorem restat_false_observable_counterexample:
  "\<not> (\<exists>r st. buffer_text (snd (Rule_write (r\<lparr>doRestat := Some False\<rparr>) st))
          \<noteq> buffer_text (snd (Rule_write (r\<lparr>doRestat := None\<rparr>) st)))
   \<and> \<not> (\<exists>n cs1 cs2 st. restat_args (cs1 @ cs2) = []
        \<and> buffer_text (snd (Rule_write (fold rule_do (cs1 @ Restat False # cs2) (new_Rule n)) st))
          \<noteq> buffer_text (snd (Rule_write (fold rule_do (cs1 @ cs2) (new_Rule n)) st)))"
proof
  show "\<not> (\<exists>r st. buffer_text (snd (Rule_write (r\<lparr>doRestat := Some False\<rparr>) st))
          \<noteq> buffer_text (snd (Rule_write (r\<lparr>doRestat := None\<rparr>) st)))"
    by (simp only: Rule_write_False_None) simp
  show "\<not> (\<exists>n cs1 cs2 st. restat_args (cs1 @ cs2) = []
        \<and> buffer_text (snd (Rule_write (fold rule_do (cs1 @ Restat False # cs2) (new_Rule n)) st))
          \<noteq> buffer_text (snd (Rule_write (fold rule_do (cs1 @ cs2) (new_Rule n)) st)))"
  proof
    assume "\<exists>n cs1 cs2 st. restat_args (cs1 @ cs2) = []
        \<and> buffer_text (snd (Rule_write (fold rule_do (cs1 @ Restat False # cs2) (new_Rule n)) st))
          \<noteq> buffer_text (snd (Rule_write (fold rule_do (cs1 @ cs2) (new_Rule n)) st))"
    then obtain n cs1 cs2 st where never: "restat_args (cs1 @ cs2) = []"
      and differ: "buffer_text (snd (Rule_write (fold rule_do (cs1 @ Restat False # cs2) (new_Rule n)) st))
          \<noteq> buffer_text (snd (Rule_write (fold rule_do (cs1 @ cs2) (new_Rule n)) st))"
      by blast
    from differ show False
      by (simp only: restat_False_anywhere [OF never]) simp
  qed
qed

section \<open>Serialization of the whole assembly\<close>

lemma write_each_app:
  assumes "\<And>x st. w x st = (x, st @ snd (w x []))"
  shows "write_each w xs st = (xs, st @ concat (map (\<lambda>x. snd (w x [])) xs))"
proof (induction xs arbitrary: st)
  case Nil
  show ?case by simp
next
  case (Cons x xs)
  have "w x st = (x, st @ snd (w x []))"
    by (rule assms)
  then show ?case
    by (simp add: Cons.IH)
qed

lemma saveToStream_chunks:
  "saveToStream ns b st = (b, st
     @ (case headerValue b of None \<Rightarrow> [] | Some h \<Rightarrow> [h @ NL @ NL])
     @ (case version b of None \<Rightarrow> [] | Some v \<Rightarrow> [''ninja_required_version = '' @ v @ NL])
     @ (case buildDir b of None \<Rightarrow> [] | Some d \<Rightarrow> [''builddir='' @ d @ NL])
     @ concat (map (\<lambda>r. snd (Rule_write r [])) (rules b))
     @ concat (map (\<lambda>e. snd (Edge_write ns e [])) (edges b))
     @ concat (map (\<lambda>v. snd (Assign_write ns v [])) (variables b))
     @ (case defaultRule b of None \<Rightarrow> [] | Some d \<Rightarrow> [''default '' @ d @ NL]))"
  unfolding saveToStream_def Let_def opt_write
    write_each_app [of Rule_write, OF Rule_write_app]
    write_each_app [of "Edge_write ns", OF Edge_write_app]
    write_each_app [of "Assign_write ns", OF Assign_write_app]
  by simp

lemma saveToStream_app:
  "saveToStream ns b st = (b, st @ snd (saveToStream ns b []))"
  by (simp only: saveToStream_chunks snd_conv append_Nil)

lemma concat_concat_map:
  "concat (concat (map f xs)) = concat (map (\<lambda>x. concat (f x)) xs)"
  by (induction xs) simp_all

lemma saveToStream_text:
  "buffer_text (snd (saveToStream ns b st)) = buffer_text st
     @ (case headerValue b of None \<Rightarrow> [] | Some h \<Rightarrow> h @ NL @ NL)
     @ (case version b of None \<Rightarrow> [] | Some v \<Rightarrow> ''ninja_required_version = '' @ v @ NL)
     @ (case buildDir b of None \<Rightarrow> [] | Some d \<Rightarrow> ''builddir='' @ d @ NL)
     @ concat (map (\<lambda>r. buffer_text (snd (Rule_write r []))) (rules b))
     @ concat (map (\<lambda>e. buffer_text (snd (Edge_write ns e []))) (edges b))
     @ concat (map (\<lambda>v. buffer_text (snd (Assign_write ns v []))) (variables b))
     @ (case defaultRule b of None \<Rightarrow> [] | Some d \<Rightarrow> ''default '' @ d @ NL)"
  unfolding saveToStream_chunks snd_conv buffer_text_def concat_append concat_opt
    concat_concat_map
  by simp

text \<open>
  C8: a serialization pass returns the assembly, and every rule, edge and binding in it,
  as it found them, and appends to the sink a text that does not depend on what the sink
  held: a second pass, on a fresh sink or on the same one, writes the same characters
  again.
\<close>

theorem saveToStream_idempotent:
  "fst (saveToStream ns b st) = b
   \<and> fst (Rule_write r st) = r \<and> fst (Edge_write ns e st) = e \<and> fst (Assign_write ns a st) = a
   \<and> buffer_text (snd (saveToStream ns b st))
       = buffer_text st @ buffer_text (snd (saveToStream ns b []))
   \<and> buffer_text (snd (saveToStream ns (fst (saveToStream ns b [])) []))
       = buffer_text (snd (saveToStream ns b []))
   \<and> buffer_text (snd (saveToStream ns (fst (saveToStream ns b st)) (snd (saveToStream ns b st))))
       = buffer_text st @ buffer_text (snd (saveToStream ns b []))
         @ buffer_text (snd (saveToStream ns b []))"
proof -
  have b: "fst (saveToStream ns b st') = b" for st'
    by (simp add: saveToStream_chunks)
  have t: "buffer_text (snd (saveToStream ns b st'))
      = buffer_text st' @ buffer_text (snd (saveToStream ns b []))" for st'
    using saveToStream_app [of ns b st'] by (simp add: buffer_text_append)
  have w: "fst (Rule_write r st) = r" "fst (Edge_write ns e st) = e"
    "fst (Assign_write ns a st) = a"
    by (simp_all add: Rule_write_chunks Edge_write_chunks Assign_write_chunks)
  show ?thesis
    by (simp only: b w t [of st] t [of "snd (saveToStream ns b st)"] append_assoc simp_thms)
qed

subsection \<open>Registration order\<close>

lemmas Ninja_defs =
  Ninja_header_def Ninja_byDefault_def Ninja_assign_def Ninja_rule_def Ninja_edge_def

lemma ninja_args_Nil:
  "rule_names [] = []" "edge_targets [] = []" "assign_clauses [] = []"
  by (simp_all add: rule_names_def edge_targets_def assign_clauses_def)

lemma ninja_args_Cons:
  "rule_names (c # cs) = (case c of Rule name \<Rightarrow> [name] | _ \<Rightarrow> []) @ rule_names cs"
  "edge_targets (c # cs) = (case c of Edge tgts \<Rightarrow> [items tgts] | _ \<Rightarrow> []) @ edge_targets cs"
  "assign_clauses (c # cs) =
     (case c of Assign k v \<Rightarrow> [new_Assign k v] | _ \<Rightarrow> []) @ assign_clauses cs"
  by (simp_all add: rule_names_def edge_targets_def assign_clauses_def)

lemma r_name_rule_do: "r_name (rule_do c r) = r_name r"
  by (cases c) (simp_all add: Rule_defs)

lemma targets_edge_do: "targets (edge_do ns lim c e) = targets e"
  by (cases c) (simp_all add: Edge_defs)

lemma targets_new_Edge: "targets (new_Edge tgts) = items tgts"
  by (cases tgts) (simp_all add: new_Edge_def)

lemma map_update_same:
  "h < length xs \<Longrightarrow> f (g (xs ! h)) = f (xs ! h) \<Longrightarrow> map f (xs[h := g (xs ! h)]) = map f xs"
  by (simp add: map_update list_update_same_conv)

lemma rules_ninja_do:
  "map r_name (rules (ninja_do ns lim c b)) =
     map r_name (rules b) @ (case c of Rule name \<Rightarrow> [name] | _ \<Rightarrow> [])"
  by (cases c) (simp_all add: Ninja_defs new_Rule_def map_update_same r_name_rule_do)

lemma edges_ninja_do:
  "map targets (edges (ninja_do ns lim c b)) =
     map targets (edges b) @ (case c of Edge tgts \<Rightarrow> [items tgts] | _ \<Rightarrow> [])"
  by (cases c) (simp_all add: Ninja_defs targets_new_Edge map_update_same targets_edge_do)

lemma variables_ninja_do:
  "variables (ninja_do ns lim c b) =
     variables b @ (case c of Assign k v \<Rightarrow> [new_Assign k v] | _ \<Rightarrow> [])"
  by (cases c) (simp_all add: Ninja_defs)

lemma version_ninja_do:
  "version (ninja_do ns lim c b) = version b" "buildDir (ninja_do ns lim c b) = buildDir b"
  by (cases c; simp add: Ninja_defs)+

lemma rules_run_calls:
  "map r_name (rules (run_calls ns lim cs b)) = map r_name (rules b) @ rule_names cs"
  unfolding run_calls_def
proof (induction cs arbitrary: b)
  case Nil
  show ?case by (simp add: ninja_args_Nil)
next
  case (Cons c cs)
  show ?case
    by (simp add: Cons.IH rules_ninja_do ninja_args_Cons)
qed

lemma edges_run_calls:
  "map targets (edges (run_calls ns lim cs b)) = map targets (edges b) @ edge_targets cs"
  unfolding run_calls_def
proof (induction cs arbitrary: b)
  case Nil
  show ?case by (simp add: ninja_args_Nil)
next
  case (Cons c cs)
  show ?case
    by (simp add: Cons.IH edges_ninja_do ninja_args_Cons)
qed

lemma variables_run_calls:
  "variables (run_calls ns lim cs b) = variables b @ assign_clauses cs"
  unfolding run_calls_def
proof (induction cs arbitrary: b)
  case Nil
  show ?case by (simp add: ninja_args_Nil)
next
  case (Cons c cs)
  show ?case
    by (simp add: Cons.IH variables_ninja_do ninja_args_Cons)
qed

lemma version_run_calls:
  "version (run_calls ns lim cs b) = version b" "buildDir (run_calls ns lim cs b) = buildDir b"
  unfolding run_calls_def
  by (induction cs arbitrary: b) (simp_all add: version_ninja_do)

text \<open>
  C1: \<^verbatim>\<open>saveToStream\<close> writes the header and two newlines, the required version, the
  build directory (with no space around \<^verbatim>\<open>=\<close>), each only if set, then all rules, all
  edges and all top-level bindings, then the default target if set. After any sequence of
  calls on a new assembly, however interleaved, the rules, the edges and the bindings are
  stored in the order of their factory calls.
\<close>

theorem saveToStream_spec:
  "buffer_text (snd (saveToStream ns b st)) = buffer_text st
     @ (case headerValue b of None \<Rightarrow> [] | Some h \<Rightarrow> h @ NL @ NL)
     @ (case version b of None \<Rightarrow> [] | Some v \<Rightarrow> ''ninja_required_version = '' @ v @ NL)
     @ (case buildDir b of None \<Rightarrow> [] | Some d \<Rightarrow> ''builddir='' @ d @ NL)
     @ concat (map (\<lambda>r. buffer_text (snd (Rule_write r []))) (rules b))
     @ concat (map (\<lambda>e. buffer_text (snd (Edge_write ns e []))) (edges b))
     @ concat (map (\<lambda>v. buffer_text (snd (Assign_write ns v []))) (variables b))
     @ (case defaultRule b of None \<Rightarrow> [] | Some d \<Rightarrow> ''default '' @ d @ NL)
   \<and> map r_name (rules (run_calls ns lim cs (new_Ninja ver dir))) = rule_names cs
   \<and> map targets (edges (run_calls ns lim cs (new_Ninja ver dir))) = edge_targets cs
   \<and> variables (run_calls ns lim cs (new_Ninja ver dir)) = assign_clauses cs
   \<and> version (run_calls ns lim cs (new_Ninja ver dir)) = ver
   \<and> buildDir (run_calls ns lim cs (new_Ninja ver dir)) = dir"
  by (simp only: saveToStream_text rules_run_calls edges_run_calls variables_run_calls
      version_run_calls) (simp add: new_Ninja_def)

text \<open>An interleaved caller, run on the model.\<close>

lemma saveToStream_interleaved_example:
  "buffer_text (snd (saveToStream decimal
     (run_calls decimal lim
        [Assign (Str ''some_var'') (Num 42), Edge (One ''dist''), Rule ''coffee'',
         ByDefault ''dist'', OnEdge 0 (From (One ''debug'')), Edge (Many [''a'', ''b'']),
         Header ''head'', OnRule 0 (Run ''coffee -cs''), Rule ''cc'', OnEdge 1 (Using ''cc''),
         Assign (Num 7) (Str ''x'')]
        (new_Ninja (Some ''1.3'') (Some ''out'')))
     []))
   = ''head'' @ NL @ NL
     @ ''ninja_required_version = 1.3'' @ NL
     @ ''builddir=out'' @ NL
     @ ''rule coffee'' @ NL @ ''  command = coffee -cs'' @ NL
     @ ''rule cc'' @ NL @ ''  command = '' @ NL
     @ ''build dist: phony debug'' @ NL
     @ ''build a b: cc'' @ NL
     @ ''some_var = 42'' @ NL
     @ ''7 = x'' @ NL
     @ ''default dist'' @ NL"
  by code_simp

section \<open>Local bindings of an edge\<close>

lemma assigns_fold:
  "assigns (fold (edge_do ns lim) cs e) =
     fold (\<lambda>kv. obj_set (fst kv) (snd kv)) (assign_args ns cs) (assigns e)"
proof (induction cs arbitrary: e)
  case Nil
  show ?case by (simp add: args_Nil)
next
  case (Cons c cs)
  show ?case
    by (cases c) (simp_all add: Cons.IH edge_args_Cons Edge_defs)
qed

lemma keys_obj_set:
  "map fst (obj_set k v obj) =
     (if k = ''__proto__'' \<or> k \<in> set (map fst obj) then map fst obj else map fst obj @ [k])"
  by (simp add: obj_set_def update_keys)

lemma map_of_obj_set:
  "map_of (obj_set k v obj) =
     (if k = ''__proto__'' then map_of obj else (map_of obj)(k \<mapsto> v))"
  by (simp add: obj_set_def update_conv')

lemma first_insertion_order_snoc:
  "first_insertion_order (ks @ [k]) =
     (if k \<in> set ks then first_insertion_order ks else first_insertion_order ks @ [k])"
  by (simp add: first_insertion_order_def)

lemma set_first_insertion_order: "set (first_insertion_order ks) = set ks"
  by (simp add: first_insertion_order_def)

lemma distinct_first_insertion_order: "distinct (first_insertion_order ks)"
  by (simp add: first_insertion_order_def)

lemma keys_fold_obj_set:
  "map fst (fold (\<lambda>kv. obj_set (fst kv) (snd kv)) kvs []) =
     first_insertion_order (filter (\<lambda>k. k \<noteq> ''__proto__'') (map fst kvs))"
proof (induction kvs rule: rev_induct)
  case Nil
  show ?case by (simp add: first_insertion_order_def)
next
  case (snoc kv kvs)
  show ?case
    by (simp add: keys_obj_set snoc.IH first_insertion_order_snoc set_first_insertion_order)
qed

lemma map_of_fold_obj_set:
  "map_of (fold (\<lambda>kv. obj_set (fst kv) (snd kv)) kvs []) k =
     (if k = ''__proto__'' then None else map_of (rev kvs) k)"
proof (induction kvs rule: rev_induct)
  case Nil
  show ?case by simp
next
  case (snoc kv kvs)
  then show ?case
    by (cases kv) (auto simp add: map_of_obj_set)
qed

lemma map_fst_insort_key:
  "map fst (insort_key (\<lambda>p. g (fst p)) x xs) = insort_key g (fst x) (map fst xs)"
  by (induction xs) simp_all

lemma map_fst_sort_key:
  "map fst (sort_key (\<lambda>p. g (fst p)) xs) = sort_key g (map fst xs)"
  by (induction xs) (simp_all add: map_fst_insort_key)

lemma keys_Object_entries:
  "map fst (Object_entries obj) =
     sort_key digits_value (filter is_array_index (map fst obj))
     @ filter (\<lambda>k. \<not> is_array_index k) (map fst obj)"
  by (simp add: Object_entries_def map_fst_sort_key filter_map comp_def)

lemma set_Object_entries: "set (Object_entries obj) = set obj"
  by (auto simp add: Object_entries_def)

lemma distinct_Object_entries:
  "distinct (map fst obj) \<Longrightarrow> distinct (map fst (Object_entries obj))"
  by (auto simp add: keys_Object_entries)

lemma map_of_Object_entries:
  "distinct (map fst obj) \<Longrightarrow> map_of (Object_entries obj) = map_of obj"
  by (simp add: map_of_inject_set distinct_Object_entries set_Object_entries)

lemma keys_Object_entries_plain:
  "list_all (\<lambda>k. \<not> is_array_index k) (map fst obj) \<Longrightarrow> map fst (Object_entries obj) = map fst obj"
  by (simp add: keys_Object_entries list_all_iff filter_id_conv filter_empty_conv)

lemma assigns_calls:
  "assigns (fold (edge_do ns lim) cs (new_Edge tgts)) =
     fold (\<lambda>kv. obj_set (fst kv) (snd kv)) (assign_args ns cs) []"
  by (simp add: assigns_fold new_Edge_def)

lemma keys_assigns_calls:
  "map fst (assigns (fold (edge_do ns lim) cs (new_Edge tgts))) =
     first_insertion_order (assigned_keys ns cs)"
  by (simp add: assigns_calls keys_fold_obj_set assigned_keys_def)

text \<open>
  C6, as amended: after any sequence of calls on a new edge the local bindings have
  distinct keys; every key other than \<^verbatim>\<open>__proto__\<close> is bound to the value of the last
  \<^verbatim>\<open>assign\<close> to it; rendering goes through the keys that are array indices first, in
  ascending numeric order, and then through the other keys in the order of their first
  insertion. When no key is an array index, the order is the order of first insertion.
\<close>

theorem Edge_assign_spec:
  "distinct (map fst (Object_entries (assigns (fold (edge_do ns lim) cs (new_Edge tgts)))))
   \<and> (k \<noteq> ''__proto__'' \<longrightarrow>
        map_of (Object_entries (assigns (fold (edge_do ns lim) cs (new_Edge tgts)))) k
        = map_of (rev (assign_args ns cs)) k)
   \<and> map fst (Object_entries (assigns (fold (edge_do ns lim) cs (new_Edge tgts))))
       = sort_key digits_value (filter is_array_index (first_insertion_order (assigned_keys ns cs)))
         @ filter (\<lambda>k. \<not> is_array_index k) (first_insertion_order (assigned_keys ns cs))
   \<and> (list_all (\<lambda>k. \<not> is_array_index k) (assigned_keys ns cs) \<longrightarrow>
        map fst (Object_entries (assigns (fold (edge_do ns lim) cs (new_Edge tgts))))
        = first_insertion_order (assigned_keys ns cs))
   \<and> buffer_text (snd (Edge_write ns e [])) =
       ''build '' @ join '' '' (targets e) @ '': '' @ e_rule e
       @ (case sources e of None \<Rightarrow> [] | Some xs \<Rightarrow> '' '' @ join '' '' xs)
       @ (case dependencies e of None \<Rightarrow> [] | Some xs \<Rightarrow> '' | '' @ join '' '' xs)
       @ (case orderDeps e of None \<Rightarrow> [] | Some xs \<Rightarrow> '' || '' @ join '' '' xs)
       @ concat (map (\<lambda>entry. NL @ ''  '' @ fst entry @ '' = '' @ toStr ns (snd entry))
                   (Object_entries (assigns e)))
       @ NL
       @ (case e_pool e of None \<Rightarrow> [] | Some p \<Rightarrow> ''  pool = '' @ p @ NL)"
proof -
  let ?obj = "assigns (fold (edge_do ns lim) cs (new_Edge tgts))"
  have keys: "map fst ?obj = first_insertion_order (assigned_keys ns cs)"
    by (rule keys_assigns_calls)
  have d: "distinct (map fst ?obj)"
    by (simp only: keys distinct_first_insertion_order)
  have 1: "distinct (map fst (Object_entries ?obj))"
    using d by (rule distinct_Object_entries)
  have 2: "k \<noteq> ''__proto__'' \<longrightarrow>
      map_of (Object_entries ?obj) k = map_of (rev (assign_args ns cs)) k"
    by (simp only: map_of_Object_entries [OF d]) (simp add: assigns_calls map_of_fold_obj_set)
  have 3: "map fst (Object_entries ?obj)
       = sort_key digits_value (filter is_array_index (first_insertion_order (assigned_keys ns cs)))
         @ filter (\<lambda>k. \<not> is_array_index k) (first_insertion_order (assigned_keys ns cs))"
    by (simp only: keys_Object_entries keys)
  have 4: "list_all (\<lambda>k. \<not> is_array_index k) (assigned_keys ns cs) \<longrightarrow>
        map fst (Object_entries ?obj) = first_insertion_order (assigned_keys ns cs)"
  proof
    assume "list_all (\<lambda>k. \<not> is_array_index k) (assigned_keys ns cs)"
    then have "list_all (\<lambda>k. \<not> is_array_index k) (map fst ?obj)"
      by (simp add: keys list_all_iff set_first_insertion_order)
    then show "map fst (Object_entries ?obj) = first_insertion_order (assigned_keys ns cs)"
      by (simp only: keys_Object_entries_plain keys)
  qed
  have 5: "buffer_text (snd (Edge_write ns e [])) =
       ''build '' @ join '' '' (targets e) @ '': '' @ e_rule e
       @ (case sources e of None \<Rightarrow> [] | Some xs \<Rightarrow> '' '' @ join '' '' xs)
       @ (case dependencies e of None \<Rightarrow> [] | Some xs \<Rightarrow> '' | '' @ join '' '' xs)
       @ (case orderDeps e of None \<Rightarrow> [] | Some xs \<Rightarrow> '' || '' @ join '' '' xs)
       @ concat (map (\<lambda>entry. NL @ ''  '' @ fst entry @ '' = '' @ toStr ns (snd entry))
                   (Object_entries (assigns e)))
       @ NL
       @ (case e_pool e of None \<Rightarrow> [] | Some p \<Rightarrow> ''  pool = '' @ p @ NL)"
    by (simp only: Edge_write_text buffer_text_Nil append_Nil)
  from 1 2 3 4 5 show ?thesis
    by (intro conjI)
qed

theorem Edge_assign_spec_witness:
  "''foobar'' \<noteq> ''__proto__''
   \<and> list_all (\<lambda>k. \<not> is_array_index k)
        (assigned_keys decimal
          [EdgeAssign (Str ''foobar'') (Num 42), EdgeAssign (Str ''depth'') (Str ''p''),
           EdgeAssign (Str ''foobar'') (Num 7)])
   \<and> map fst (Object_entries (assigns (fold (edge_do decimal 125000)
          [EdgeAssign (Str ''foobar'') (Num 42), EdgeAssign (Str ''depth'') (Str ''p''),
           EdgeAssign (Str ''foobar'') (Num 7)] (new_Edge (One ''baobab.js'')))))
      = [''foobar'', ''depth'']
   \<and> map_of (Object_entries (assigns (fold (edge_do decimal 125000)
          [EdgeAssign (Str ''foobar'') (Num 42), EdgeAssign (Str ''depth'') (Str ''p''),
           EdgeAssign (Str ''foobar'') (Num 7)] (new_Edge (One ''baobab.js''))))) ''foobar''
      = Some (Num 7)"
proof -
  let ?cs = "[EdgeAssign (Str ''foobar'') (Num (42::nat)), EdgeAssign (Str ''depth'') (Str ''p''),
           EdgeAssign (Str ''foobar'') (Num 7)]"
  have args: "assign_args decimal ?cs
      = [(''foobar'', Num 42), (''depth'', Str ''p''), (''foobar'', Num 7)]"
    by (simp add: assign_args_def)
  have ks: "assigned_keys decimal ?cs = [''foobar'', ''depth'', ''foobar'']"
    by (simp add: assigned_keys_def args)
  have k: "''foobar'' \<noteq> ''__proto__''"
    by simp
  have plain: "list_all (\<lambda>k. \<not> is_array_index k) (assigned_keys decimal ?cs)"
    by (simp add: ks is_array_index_def is_digit_def)
  have fio: "first_insertion_order (assigned_keys decimal ?cs) = [''foobar'', ''depth'']"
    by (simp add: ks first_insertion_order_def)
  have last: "map_of (rev (assign_args decimal ?cs)) ''foobar'' = Some (Num 7)"
    by (simp add: args)
  from Edge_assign_spec [where ns = decimal and lim = 125000 and cs = ?cs
      and tgts = "One ''baobab.js''" and k = "''foobar''"] k plain
  have "map_of (Object_entries (assigns (fold (edge_do decimal 125000) ?cs (new_Edge (One ''baobab.js'')))))
          ''foobar'' = map_of (rev (assign_args decimal ?cs)) ''foobar''"
    and "map fst (Object_entries (assigns (fold (edge_do decimal 125000) ?cs (new_Edge (One ''baobab.js'')))))
          = first_insertion_order (assigned_keys decimal ?cs)"
    by blast+
  with k plain show ?thesis
    by (simp only: fio last simp_thms)
qed

lemma Edge_assign_order_example:
  "map fst (Object_entries (assigns (fold (edge_do decimal lim)
      [EdgeAssign (Str ''b'') (Str ''x''), EdgeAssign (Str ''1'') (Str ''y'')]
      (new_Edge (One ''a''))))) = [''1'', ''b'']
   \<and> first_insertion_order (assigned_keys decimal
        [EdgeAssign (Str ''b'') (Str ''x''), EdgeAssign (Str ''1'') (Str ''y'')]) = [''b'', ''1'']
   \<and> map fst (Object_entries (assigns (fold (edge_do decimal lim)
        [EdgeAssign (Str ''b'') (Str ''x''), EdgeAssign (Str ''1'') (Str ''y'')]
        (new_Edge (One ''a'')))))
      \<noteq> first_insertion_order (assigned_keys decimal
        [EdgeAssign (Str ''b'') (Str ''x''), EdgeAssign (Str ''1'') (Str ''y'')])
   \<and> buffer_text (snd (Edge_write decimal
        (fold (edge_do decimal lim)
          [EdgeAssign (Str ''b'') (Str ''x''), EdgeAssign (Str ''1'') (Str ''y'')]
          (new_Edge (One ''a''))) []))
      = ''build a: phony'' @ NL @ ''  1 = y'' @ NL @ ''  b = x'' @ NL
   \<and> map_of (rev (assign_args decimal [EdgeAssign (Str ''__proto__'') (Str ''v'')])) ''__proto__''
      = Some (Str ''v'')
   \<and> Object_entries (assigns (fold (edge_do decimal lim)
        [EdgeAssign (Str ''__proto__'') (Str ''v'')] (new_Edge (One ''a'')))) = []"
  by code_simp

text \<open>
  C6 as stated fails after \<^verbatim>\<open>assign('b', 'x')\<close> and \<^verbatim>\<open>assign('1', 'y')\<close>: the key
  \<^verbatim>\<open>1\<close> was inserted last and is rendered first. And the last write to the key
  \<^verbatim>\<open>__proto__\<close> is not kept: the edge has no binding after it.
\<close>

theorem Edge_assign_order_counterexample:
  "map fst (Object_entries (assigns (fold (edge_do decimal 125000)
      [EdgeAssign (Str ''b'') (Str ''x''), EdgeAssign (Str ''1'') (Str ''y'')]
      (new_Edge (One ''a''))))) = [''1'', ''b'']
   \<and> first_insertion_order (assigned_keys decimal
        [EdgeAssign (Str ''b'') (Str ''x''), EdgeAssign (Str ''1'') (Str ''y'')]) = [''b'', ''1'']
   \<and> map fst (Object_entries (assigns (fold (edge_do decimal 125000)
        [EdgeAssign (Str ''b'') (Str ''x''), EdgeAssign (Str ''1'') (Str ''y'')]
        (new_Edge (One ''a'')))))
      \<noteq> first_insertion_order (assigned_keys decimal
        [EdgeAssign (Str ''b'') (Str ''x''), EdgeAssign (Str ''1'') (Str ''y'')])
   \<and> buffer_text (snd (Edge_write decimal
        (fold (edge_do decimal 125000)
          [EdgeAssign (Str ''b'') (Str ''x''), EdgeAssign (Str ''1'') (Str ''y'')]
          (new_Edge (One ''a''))) []))
      = ''build a: phony'' @ NL @ ''  1 = y'' @ NL @ ''  b = x'' @ NL
   \<and> map_of (rev (assign_args decimal [EdgeAssign (Str ''__proto__'') (Str ''v'')])) ''__proto__''
      = Some (Str ''v'')
   \<and> Object_entries (assigns (fold (edge_do decimal 125000)
        [EdgeAssign (Str ''__proto__'') (Str ''v'')] (new_Edge (One ''a'')))) = []"
  by (rule Edge_assign_order_example)

end
